theory Spec2Isabelle
  imports Main "HOL-Library.Multiset" "HOL-Library.Sublist"
begin

section \<open>The PrimeVue documentation server (src/server.mjs)\<close>

text \<open>
  A shallow embedding of the query operations of \<^verbatim>\<open>PrimeVueServer\<close>: the resource
  resolver and the tools \<^verbatim>\<open>search_primevue_docs\<close>, \<^verbatim>\<open>get_component_api\<close> and
  \<^verbatim>\<open>list_categories\<close>.

  A JavaScript string is a sequence of code units; it is modelled as a \<open>string\<close> whose
  characters are the code units below 256. The built-in string and array methods the
  server calls are written out below with the behaviour ECMAScript gives them.
  \<^verbatim>\<open>String.prototype.localeCompare\<close> depends on the collation data of the host, so it is
  a parameter \<open>lc\<close> of the one operation that calls it.
\<close>

subsection \<open>Built-in string methods\<close>

text \<open>\<^verbatim>\<open>toLowerCase\<close>: on code units below 256 the letters A-Z and the Latin-1 capitals
  (0xC0-0xDE without the multiplication sign 0xD7) move up by 32; every other unit stays.\<close>

definition toLowerCase_unit :: "char \<Rightarrow> char" where
  "toLowerCase_unit c =
     (let n = (of_char c :: nat) in
      if (65 \<le> n \<and> n \<le> 90) \<or> (192 \<le> n \<and> n \<le> 222 \<and> n \<noteq> 215)
      then char_of (n + 32) else c)"

definition toLowerCase :: "string \<Rightarrow> string" where
  "toLowerCase s = map toLowerCase_unit s"

text \<open>\<^verbatim>\<open>s.includes(pat)\<close>: does \<open>pat\<close> occur in \<open>s\<close> at some position.\<close>

fun str_includes :: "string \<Rightarrow> string \<Rightarrow> bool" where
  "str_includes [] pat = (pat = [])"
| "str_includes (c # cs) pat = (prefix pat (c # cs) \<or> str_includes cs pat)"

text \<open>\<^verbatim>\<open>s.indexOf(pat)\<close>: the first position where \<open>pat\<close> occurs, or -1.\<close>

fun indexOf :: "string \<Rightarrow> string \<Rightarrow> int" where
  "indexOf [] pat = (if pat = [] then 0 else - 1)"
| "indexOf (c # cs) pat =
     (if prefix pat (c # cs) then 0
      else (let i = indexOf cs pat in if i < 0 then - 1 else i + 1))"

text \<open>\<^verbatim>\<open>s.substring(start)\<close>: \<open>start\<close> is clamped to the range from 0 to the length.\<close>

definition substring :: "string \<Rightarrow> int \<Rightarrow> string" where
  "substring s start = drop (nat start) s"

text \<open>\<^verbatim>\<open>s.split(sep)\<close> for a separator of one code unit; the result is never empty.\<close>

fun split :: "string \<Rightarrow> char \<Rightarrow> string list" where
  "split [] sep = [[]]"
| "split (c # cs) sep =
     (if c = sep then [] # split cs sep
      else (case split cs sep of [] \<Rightarrow> [[c]] | w # ws \<Rightarrow> (c # w) # ws))"

text \<open>\<^verbatim>\<open>arr[0]\<close>: reading index 0 of an empty array gives \<^verbatim>\<open>undefined\<close>, here \<open>None\<close>.\<close>

definition elem0 :: "'a list \<Rightarrow> 'a option" where
  "elem0 xs = (case xs of [] \<Rightarrow> None | x # _ \<Rightarrow> Some x)"

text \<open>\<^verbatim>\<open>arr.join(sep)\<close>.\<close>

fun join :: "string list \<Rightarrow> string \<Rightarrow> string" where
  "join [] sep = []"
| "join [x] sep = x"
| "join (x # y # ys) sep = x @ sep @ join (y # ys) sep"

text \<open>\<^verbatim>\<open>s.replace(pat, rep)\<close> with a string pattern: only the first occurrence is replaced.\<close>

fun replace :: "string \<Rightarrow> string \<Rightarrow> string \<Rightarrow> string" where
  "replace [] pat rep = (if pat = [] then rep else [])"
| "replace (c # cs) pat rep =
     (if prefix pat (c # cs) then rep @ drop (length pat) (c # cs)
      else c # replace cs pat rep)"

text \<open>A number inside a template literal: its decimal digits.\<close>

fun string_of_nat :: "nat \<Rightarrow> string" where
  "string_of_nat n =
     (if n < 10 then [char_of (48 + n)]
      else string_of_nat (n div 10) @ [char_of (48 + n mod 10)])"

declare string_of_nat.simps [simp del]

subsection \<open>Array.prototype.sort\<close>

text \<open>
  \<^verbatim>\<open>arr.sort(cmp)\<close> is stable, and for a consistent comparator its result is the one
  stable ordering of the elements; insertion from the right computes it.
\<close>

fun sort_insert :: "('a \<Rightarrow> 'a \<Rightarrow> int) \<Rightarrow> 'a \<Rightarrow> 'a list \<Rightarrow> 'a list" where
  "sort_insert cmp x [] = [x]"
| "sort_insert cmp x (y # ys) =
     (if cmp x y \<le> 0 then x # y # ys else y # sort_insert cmp x ys)"

definition array_sort :: "('a \<Rightarrow> 'a \<Rightarrow> int) \<Rightarrow> 'a list \<Rightarrow> 'a list" where
  "array_sort cmp xs = foldr (sort_insert cmp) xs []"

text \<open>The comparator of \<^verbatim>\<open>arr.sort()\<close> on strings: code units, lexicographically.\<close>

fun compare_units :: "string \<Rightarrow> string \<Rightarrow> int" where
  "compare_units [] [] = 0"
| "compare_units [] (y # ys) = - 1"
| "compare_units (x # xs) [] = 1"
| "compare_units (x # xs) (y # ys) =
     (if (of_char x :: nat) < of_char y then - 1
      else if (of_char y :: nat) < of_char x then 1
      else compare_units xs ys)"

text \<open>What ECMAScript asks of a comparator for the sorted order to be defined.\<close>

definition consistent_cmp :: "('a \<Rightarrow> 'a \<Rightarrow> int) \<Rightarrow> bool" where
  "consistent_cmp cmp \<longleftrightarrow>
     (\<forall>a b. (cmp a b < 0) = (0 < cmp b a)) \<and>
     (\<forall>a b c. cmp a b \<le> 0 \<and> cmp b c \<le> 0 \<longrightarrow> cmp a c \<le> 0)"

subsection \<open>Documents and the collection\<close>

record doc_content =
  content_type :: string
  content_value :: string

record doc_metadata =
  meta_source :: string
  meta_file :: string
  meta_created :: string
  meta_updated :: string

record PrimeVueDoc =
  schema :: string
  doc_id :: string
  title :: string
  tags :: "string list"
  content :: doc_content
  metadata :: doc_metadata

text \<open>
  \<^verbatim>\<open>Map<string, PrimeVueDoc>\<close>: the entries in insertion order. \<^verbatim>\<open>set\<close> on a key that
  is present replaces the value where it stands; otherwise the entry is appended.
\<close>

type_synonym docs_map = "(string \<times> PrimeVueDoc) list"

fun Map_set :: "('k \<times> 'v) list \<Rightarrow> 'k \<Rightarrow> 'v \<Rightarrow> ('k \<times> 'v) list" where
  "Map_set [] k v = [(k, v)]"
| "Map_set ((k', v') # m) k v =
     (if k' = k then (k, v) # m else (k', v') # Map_set m k v)"

definition Map_get :: "('k \<times> 'v) list \<Rightarrow> 'k \<Rightarrow> 'v option" where
  "Map_get m k = map_of m k"

text \<open>\<^verbatim>\<open>loadDocs\<close>, on the documents parsed from the files in the order they are read:
  each is stored under its own id.\<close>

definition loadDocs :: "PrimeVueDoc list \<Rightarrow> docs_map" where
  "loadDocs ds = fold (\<lambda>doc m. Map_set m (doc_id doc) doc) ds []"

text \<open>The truthiness of an optional string argument: \<^verbatim>\<open>undefined\<close> and \<^verbatim>\<open>''\<close> are falsy.\<close>

definition truthy :: "string option \<Rightarrow> bool" where
  "truthy a = (case a of None \<Rightarrow> False | Some s \<Rightarrow> s \<noteq> [])"

text \<open>\<^verbatim>\<open>doc.metadata.file.split('/')[0] || 'Unknown'\<close>.\<close>

definition category_or_unknown :: "PrimeVueDoc \<Rightarrow> string" where
  "category_or_unknown doc =
     (case elem0 (split (meta_file (metadata doc)) CHR ''/'') of
        None \<Rightarrow> ''Unknown''
      | Some seg \<Rightarrow> if seg = [] then ''Unknown'' else seg)"

subsection \<open>The tool search_primevue_docs\<close>

record ResultEntry =
  r_component :: string
  r_category :: string
  r_id :: string
  r_snippet :: string
  r_uri :: string
  r_tags :: "string list"

text \<open>The snippet: the first three lines of the content that contain the search term,
  or a placeholder made from the title.\<close>

definition snippet :: "string \<Rightarrow> PrimeVueDoc \<Rightarrow> string" where
  "snippet searchTerm doc =
     (let lines = split (content_value (content doc)) CHR ''\<newline>'';
          relevantLines =
            take 3 (filter (\<lambda>line. str_includes (toLowerCase line) searchTerm) lines)
      in if length relevantLines > 0 then join relevantLines ''\<newline>''
         else title doc @ '' documentation'')"

text \<open>The object pushed onto \<^verbatim>\<open>results\<close>.\<close>

definition result_entry :: "string \<Rightarrow> string \<Rightarrow> PrimeVueDoc \<Rightarrow> ResultEntry" where
  "result_entry searchTerm key doc =
     \<lparr> r_component = title doc,
       r_category = category_or_unknown doc,
       r_id = doc_id doc,
       r_snippet = snippet searchTerm doc,
       r_uri = ''primevue://'' @ replace key ''/primevue/'' [],
       r_tags = tags doc \<rparr>"

text \<open>One round of the loop over the collection.\<close>

definition search_visit ::
  "string \<Rightarrow> string option \<Rightarrow> ResultEntry list \<Rightarrow> string \<times> PrimeVueDoc \<Rightarrow> ResultEntry list" where
  "search_visit query component results entry =
     (let searchTerm = toLowerCase query; id = fst entry; doc = snd entry in
      if truthy component \<and>
         \<not> str_includes (toLowerCase (title doc)) (toLowerCase (the component))
      then results
      else
        let content_lc = toLowerCase (content_value (content doc));
            titleMatch = str_includes (toLowerCase (title doc)) searchTerm;
            contentMatch = str_includes content_lc searchTerm;
            tagsMatch = list_ex (\<lambda>tag. str_includes (toLowerCase tag) searchTerm) (tags doc)
        in
          if titleMatch \<or> contentMatch \<or> tagsMatch
          then results @ [result_entry searchTerm id doc]
          else results)"

definition search_collect :: "docs_map \<Rightarrow> string \<Rightarrow> string option \<Rightarrow> ResultEntry list" where
  "search_collect docs query component =
     foldl (search_visit query component) [] docs"

text \<open>The comparator passed to \<^verbatim>\<open>results.sort\<close>.\<close>

definition title_first :: "string \<Rightarrow> ResultEntry \<Rightarrow> ResultEntry \<Rightarrow> int" where
  "title_first searchTerm a b =
     (let aTitle = (if str_includes (toLowerCase (r_component a)) searchTerm then 1 else 0);
          bTitle = (if str_includes (toLowerCase (r_component b)) searchTerm then 1 else 0)
      in bTitle - aTitle)"

definition search_results :: "docs_map \<Rightarrow> string \<Rightarrow> string option \<Rightarrow> ResultEntry list" where
  "search_results docs query component =
     array_sort (title_first (toLowerCase query)) (search_collect docs query component)"

definition render_result :: "ResultEntry \<Rightarrow> string" where
  "render_result r =
     ''**'' @ r_component r @ ''** ('' @ r_category r @ '')\<newline>Tags: '' @
     join (r_tags r) '', '' @ ''\<newline>'' @ r_snippet r @ ''\<newline>(URI: '' @ r_uri r @
     '')\<newline>''"

definition search_primevue_docs :: "docs_map \<Rightarrow> string \<Rightarrow> string option \<Rightarrow> string" where
  "search_primevue_docs docs query component =
     (let results = search_results docs query component in
      ''Found '' @ string_of_nat (length results) @ '' results for '' @ [CHR 0x22] @ query @
      [CHR 0x22] @ '':\<newline>\<newline>'' @ join (map render_result results) ''\<newline>'')"

subsection \<open>Plain objects used as dictionaries\<close>

text \<open>
  The accumulator of \<^verbatim>\<open>reduce\<close> in \<^verbatim>\<open>get_component_api\<close> is the object literal
  \<^verbatim>\<open>{}\<close>. Its own properties are kept in creation order; reading a key that is not an
  own property falls through to \<^verbatim>\<open>Object.prototype\<close>, whose properties are all truthy
  and none of them an array.
\<close>

datatype error = Error string | TypeError

type_synonym js_object = "(string \<times> string list) list"

definition object_prototype_keys :: "string list" where
  "object_prototype_keys =
     [''constructor'', ''__defineGetter__'', ''__defineSetter__'', ''hasOwnProperty'',
      ''__lookupGetter__'', ''__lookupSetter__'', ''isPrototypeOf'',
      ''propertyIsEnumerable'', ''toString'', ''valueOf'', ''__proto__'',
      ''toLocaleString'']"

definition is_digit :: "char \<Rightarrow> bool" where
  "is_digit c \<longleftrightarrow> 48 \<le> (of_char c :: nat) \<and> (of_char c :: nat) \<le> 57"

definition nat_of_digits :: "string \<Rightarrow> nat" where
  "nat_of_digits k = foldl (\<lambda>n c. 10 * n + (of_char c - 48)) 0 k"

text \<open>An array index: the canonical decimal form of a number below \<open>2^32 - 1\<close>.\<close>

definition is_array_index :: "string \<Rightarrow> bool" where
  "is_array_index k \<longleftrightarrow>
     k \<noteq> [] \<and> list_all is_digit k \<and> (k = ''0'' \<or> elem0 k \<noteq> Some CHR ''0'') \<and>
     nat_of_digits k < 4294967295"

text \<open>\<^verbatim>\<open>Object.entries\<close>: the array-index keys in ascending numeric order, then the
  other keys in creation order.\<close>

definition Object_entries :: "js_object \<Rightarrow> (string \<times> string list) list" where
  "Object_entries obj =
     sort_key (\<lambda>e. nat_of_digits (fst e)) (filter (\<lambda>e. is_array_index (fst e)) obj) @
     filter (\<lambda>e. \<not> is_array_index (fst e)) obj"

subsection \<open>The tool get_component_api\<close>

record Comp =
  c_title :: string
  c_category :: string

text \<open>The two lookups: first a document whose lower-cased title equals the lower-cased
  argument, then the key \<^verbatim>\<open>/primevue/components/<lower-cased argument>\<close>.\<close>

definition lookup_component :: "docs_map \<Rightarrow> string \<Rightarrow> PrimeVueDoc option" where
  "lookup_component docs component =
     (case List.find (\<lambda>d. toLowerCase (title d) = toLowerCase component) (map snd docs) of
        Some doc \<Rightarrow> Some doc
      | None \<Rightarrow> Map_get docs (''/primevue/components/'' @ toLowerCase component))"

text \<open>\<^verbatim>\<open>a.category.localeCompare(b.category) || a.title.localeCompare(b.title)\<close>.\<close>

definition by_category_then_title :: "(string \<Rightarrow> string \<Rightarrow> int) \<Rightarrow> Comp \<Rightarrow> Comp \<Rightarrow> int" where
  "by_category_then_title lc a b =
     (if lc (c_category a) (c_category b) \<noteq> 0 then lc (c_category a) (c_category b)
      else lc (c_title a) (c_title b))"

definition availableComponents :: "(string \<Rightarrow> string \<Rightarrow> int) \<Rightarrow> docs_map \<Rightarrow> Comp list" where
  "availableComponents lc docs =
     array_sort (by_category_then_title lc)
       (map (\<lambda>d. \<lparr> c_title = title d, c_category = category_or_unknown d \<rparr>) (map snd docs))"

text \<open>The callback of \<^verbatim>\<open>reduce\<close>: \<^verbatim>\<open>acc[comp.category].push\<close> is a call of
  \<^verbatim>\<open>undefined\<close> when the key is found on the prototype.\<close>

definition group_step :: "js_object \<Rightarrow> Comp \<Rightarrow> error + js_object" where
  "group_step acc item =
     (case map_of acc (c_category item) of
        Some arr \<Rightarrow>
          Inr (map (\<lambda>e. if fst e = c_category item then (fst e, snd e @ [c_title item]) else e) acc)
      | None \<Rightarrow>
          if c_category item \<in> set object_prototype_keys then Inl TypeError
          else Inr (acc @ [(c_category item, [c_title item])]))"

fun reduce_groups :: "js_object \<Rightarrow> Comp list \<Rightarrow> error + js_object" where
  "reduce_groups acc [] = Inr acc"
| "reduce_groups acc (item # items) =
     (case group_step acc item of
        Inl e \<Rightarrow> Inl e
      | Inr acc' \<Rightarrow> reduce_groups acc' items)"

definition componentsByCategory ::
  "(string \<Rightarrow> string \<Rightarrow> int) \<Rightarrow> docs_map \<Rightarrow> error + js_object" where
  "componentsByCategory lc docs = reduce_groups [] (availableComponents lc docs)"

definition render_available :: "string \<times> string list \<Rightarrow> string" where
  "render_available e = ''**'' @ fst e @ ''**: '' @ join (snd e) '', ''"

definition not_found_text :: "string \<Rightarrow> (string \<times> string list) list \<Rightarrow> string" where
  "not_found_text component groups =
     ''Component '' @ [CHR 0x22] @ component @ [CHR 0x22] @
     '' not found.\<newline>\<newline>Available components:\<newline>'' @
     join (map render_available groups) ''\<newline>''"

definition api_section :: "string \<Rightarrow> string" where
  "api_section content_text =
     (let apiStart = indexOf content_text ''### API'' in
      if apiStart > - 1 then substring content_text apiStart else content_text)"

text \<open>\<^verbatim>\<open>doc.metadata.file.split('/')[0]\<close> inside the template literal.\<close>

definition category_shown :: "PrimeVueDoc \<Rightarrow> string" where
  "category_shown doc =
     (case elem0 (split (meta_file (metadata doc)) CHR ''/'') of
        None \<Rightarrow> ''undefined''
      | Some seg \<Rightarrow> seg)"

definition api_reference :: "PrimeVueDoc \<Rightarrow> string" where
  "api_reference doc =
     ''# '' @ title doc @ '' API Reference\<newline>Category: '' @ category_shown doc @
     ''\<newline>Tags: '' @ join (tags doc) '', '' @ ''\<newline>\<newline>'' @
     api_section (content_value (content doc))"

definition get_component_api ::
  "(string \<Rightarrow> string \<Rightarrow> int) \<Rightarrow> docs_map \<Rightarrow> string \<Rightarrow> error + string" where
  "get_component_api lc docs component =
     (case lookup_component docs component of
        None \<Rightarrow>
          (case componentsByCategory lc docs of
             Inl e \<Rightarrow> Inl e
           | Inr groups \<Rightarrow> Inr (not_found_text component (Object_entries groups)))
      | Some doc \<Rightarrow> Inr (api_reference doc))"

subsection \<open>The tool list_categories\<close>

text \<open>One round of the loop; \<^verbatim>\<open>categories.get(docCategory)!.push\<close> would be a call on
  \<^verbatim>\<open>undefined\<close> if the key were missing.\<close>

definition categories_visit ::
  "string option \<Rightarrow> (string \<times> string list) list \<Rightarrow> string \<times> PrimeVueDoc \<Rightarrow>
   error + (string \<times> string list) list" where
  "categories_visit category categories entry =
     (let doc = snd entry; docCategory = category_or_unknown doc in
      if truthy category \<and> toLowerCase docCategory \<noteq> toLowerCase (the category)
      then Inr categories
      else
        let categories' =
              (if Map_get categories docCategory = None
               then Map_set categories docCategory [] else categories)
        in case Map_get categories' docCategory of
             None \<Rightarrow> Inl TypeError
           | Some arr \<Rightarrow> Inr (Map_set categories' docCategory (arr @ [title doc])))"

fun categories_loop ::
  "string option \<Rightarrow> (string \<times> string list) list \<Rightarrow> docs_map \<Rightarrow>
   error + (string \<times> string list) list" where
  "categories_loop category categories [] = Inr categories"
| "categories_loop category categories (entry # rest) =
     (case categories_visit category categories entry of
        Inl e \<Rightarrow> Inl e
      | Inr categories' \<Rightarrow> categories_loop category categories' rest)"

text \<open>The callback of \<^verbatim>\<open>map\<close>: \<^verbatim>\<open>components.sort()\<close> orders the titles by code units.\<close>

definition sorted_group :: "string \<times> string list \<Rightarrow> string \<times> string list" where
  "sorted_group e = (fst e, array_sort compare_units (snd e))"

definition render_category :: "string \<times> string list \<Rightarrow> string" where
  "render_category e =
     ''**'' @ fst e @ ''** ('' @ string_of_nat (length (snd e)) @ '' items)\<newline>'' @
     join (map (\<lambda>c. ''  - '' @ c) (snd e)) ''\<newline>''"

definition category_groups ::
  "docs_map \<Rightarrow> string option \<Rightarrow> error + (string \<times> string list) list" where
  "category_groups docs category =
     (case categories_loop category [] docs of
        Inl e \<Rightarrow> Inl e
      | Inr categories \<Rightarrow> Inr (map sorted_group categories))"

definition list_categories :: "docs_map \<Rightarrow> string option \<Rightarrow> error + string" where
  "list_categories docs category =
     (case category_groups docs category of
        Inl e \<Rightarrow> Inl e
      | Inr groups \<Rightarrow>
          let result = join (map render_category groups) ''\<newline>\<newline>'' in
          Inr (if truthy category
               then ''Components in '' @ [CHR 0x22] @ the category @ [CHR 0x22] @
                    '' category:\<newline>\<newline>'' @ result
               else ''PrimeVue Documentation Categories:\<newline>\<newline>'' @ result))"

subsection \<open>The resource primevue://{docPath}\<close>



subsection \<open>The properties in the words of the specification\<close>

text \<open>The query occurs in a document: lower-cased, it is a substring of the lower-cased
  title, or of the lower-cased content, or of some lower-cased tag.\<close>

definition query_occurs :: "string \<Rightarrow> PrimeVueDoc \<Rightarrow> bool" where
  "query_occurs q D \<longleftrightarrow>
     sublist (toLowerCase q) (toLowerCase (title D)) \<or>
     sublist (toLowerCase q) (toLowerCase (content_value (content D))) \<or>
     (\<exists>t \<in> set (tags D). sublist (toLowerCase q) (toLowerCase t))"

text \<open>The lines of the content that contain the query, and the snippet made of the first
  three of them, or of the title when there is none.\<close>

definition matching_lines :: "string \<Rightarrow> PrimeVueDoc \<Rightarrow> string list" where
  "matching_lines q D =
     filter (\<lambda>l. sublist (toLowerCase q) (toLowerCase l))
       (split (content_value (content D)) CHR ''\<newline>'')"

definition spec_snippet :: "string \<Rightarrow> PrimeVueDoc \<Rightarrow> string" where
  "spec_snippet q D =
     (if matching_lines q D = [] then title D @ '' documentation''
      else join (take 3 (matching_lines q D)) ''\<newline>'')"



subsection \<open>Auxiliary notions for the proofs\<close>

text \<open>The documents the loop of the search keeps.\<close>

definition search_keep :: "string \<Rightarrow> string option \<Rightarrow> string \<times> PrimeVueDoc \<Rightarrow> bool" where
  "search_keep query component entry \<longleftrightarrow>
     (truthy component \<longrightarrow>
        str_includes (toLowerCase (title (snd entry))) (toLowerCase (the component))) \<and>
     (str_includes (toLowerCase (title (snd entry))) (toLowerCase query) \<or>
      str_includes (toLowerCase (content_value (content (snd entry)))) (toLowerCase query) \<or>
      list_ex (\<lambda>tag. str_includes (toLowerCase tag) (toLowerCase query)) (tags (snd entry)))"

text \<open>The array stored under a key, empty when the key is missing.\<close>

definition titles_of :: "(string \<times> string list) list \<Rightarrow> string \<Rightarrow> string list" where
  "titles_of acc k = (case map_of acc k of None \<Rightarrow> [] | Some ts \<Rightarrow> ts)"



subsection \<open>Sample collections\<close>

definition example_button :: PrimeVueDoc where
  "example_button =
     \<lparr> schema = ''mcp-doc'', doc_id = ''/primevue/components/button'', title = ''button'',
       tags = [''components'', ''form''],
       content = \<lparr> content_type = ''text/markdown'',
                   content_value = ''Button, not accordion.\<newline>### API\<newline>props: label'' \<rparr>,
       metadata = \<lparr> meta_source = ''https://primevue.org/button'',
                    meta_file = ''components/button.md'', meta_created = ''2025-01-01'',
                    meta_updated = ''2025-01-01'' \<rparr> \<rparr>"

definition example_accordion :: PrimeVueDoc where
  "example_accordion =
     \<lparr> schema = ''mcp-doc'', doc_id = ''/primevue/components/accordion'',
       title = ''Accordion'', tags = [''components''],
       content = \<lparr> content_type = ''text/markdown'', content_value = ''Accordion panels'' \<rparr>,
       metadata = \<lparr> meta_source = ''https://primevue.org/accordion'',
                    meta_file = ''components/accordion.md'', meta_created = ''2025-01-01'',
                    meta_updated = ''2025-01-01'' \<rparr> \<rparr>"

definition example_docs :: docs_map where
  "example_docs = loadDocs [example_button, example_accordion]"

text \<open>A page converted from a file that lies directly in the root: its path has an empty
  first segment.\<close>

definition example_unfiled :: PrimeVueDoc where
  "example_unfiled =
     \<lparr> schema = ''mcp-doc'', doc_id = ''/primevue//start'', title = ''Start'',
       tags = [''guide''],
       content = \<lparr> content_type = ''text/markdown'', content_value = ''Get started'' \<rparr>,
       metadata = \<lparr> meta_source = ''https://primevue.org/start'',
                    meta_file = ''/start.md'', meta_created = ''2025-01-01'',
                    meta_updated = ''2025-01-01'' \<rparr> \<rparr>"

definition unfiled_docs :: docs_map where
  "unfiled_docs = loadDocs [example_unfiled]"

text \<open>A page from a directory named like a property of \<^verbatim>\<open>Object.prototype\<close>.\<close>

definition example_constructor :: PrimeVueDoc where
  "example_constructor =
     \<lparr> schema = ''mcp-doc'', doc_id = ''/primevue/constructor/intro'', title = ''Intro'',
       tags = [''constructor''],
       content = \<lparr> content_type = ''text/markdown'', content_value = ''Classes'' \<rparr>,
       metadata = \<lparr> meta_source = ''https://primevue.org/intro'',
                    meta_file = ''constructor/intro.md'', meta_created = ''2025-01-01'',
                    meta_updated = ''2025-01-01'' \<rparr> \<rparr>"

definition constructor_docs :: docs_map where
  "constructor_docs = loadDocs [example_constructor]"

section \<open>Facts about the built-in methods\<close>

lemma str_includes_sublist: "str_includes s pat \<longleftrightarrow> sublist pat s"
  by (induction s) (simp_all add: sublist_Cons_right)

lemma split_not_Nil: "split s sep \<noteq> []"
  by (induction s) (auto split: list.splits)

lemma elem0_split: "elem0 (split s sep) = Some (takeWhile (\<lambda>c. c \<noteq> sep) s)"
  by (induction s) (auto simp: elem0_def split: list.splits)

lemma join_split: "join (split s sep) [sep] = s"
proof (induction s)
  case Nil
  show ?case by simp
next
  case (Cons c cs)
  show ?case
  proof (cases "c = sep")
    case True
    with Cons show ?thesis
      by (cases "split cs sep") (simp_all add: split_not_Nil)
  next
    case False
    obtain w ws where sp: "split cs sep = w # ws"
      using split_not_Nil [of cs sep] by (cases "split cs sep") auto
    with Cons False show ?thesis
      by (cases ws) auto
  qed
qed

lemma split_no_sep: "list_all (\<lambda>l. sep \<notin> set l) (split s sep)"
  by (induction s) (auto split: list.splits)

lemma category_or_unknown_eq:
  "category_or_unknown d =
     (if takeWhile (\<lambda>c. c \<noteq> CHR ''/'') (meta_file (metadata d)) = [] then ''Unknown''
      else takeWhile (\<lambda>c. c \<noteq> CHR ''/'') (meta_file (metadata d)))"
  by (simp add: category_or_unknown_def elem0_split)

lemma category_shown_eq:
  "category_shown d = takeWhile (\<lambda>c. c \<noteq> CHR ''/'') (meta_file (metadata d))"
  by (simp add: category_shown_def elem0_split)

subsection \<open>Sorting with a comparator that knows two classes\<close>

lemma sort_insert_two_classes:
  assumes cmp: "\<And>a b. cmp a b \<le> 0 \<longleftrightarrow> P a \<or> \<not> P b"
    and xs: "list_all P xs" and ys: "list_all (\<lambda>y. \<not> P y) ys"
  shows "sort_insert cmp x (xs @ ys) = (if P x then x # xs @ ys else xs @ x # ys)"
  using xs
proof (induction xs)
  case Nil
  then show ?case using ys cmp by (cases ys) auto
next
  case (Cons a xs)
  then show ?case using cmp by auto
qed

lemma array_sort_two_classes:
  assumes cmp: "\<And>a b. cmp a b \<le> 0 \<longleftrightarrow> P a \<or> \<not> P b"
  shows "array_sort cmp zs = filter P zs @ filter (\<lambda>z. \<not> P z) zs"
proof (induction zs)
  case Nil
  show ?case by (simp add: array_sort_def)
next
  case (Cons z zs)
  have "array_sort cmp (z # zs) = sort_insert cmp z (array_sort cmp zs)"
    by (simp add: array_sort_def)
  also have "\<dots> = sort_insert cmp z (filter P zs @ filter (\<lambda>z. \<not> P z) zs)"
    by (simp add: Cons.IH)
  also have "\<dots> = (if P z then z # filter P zs @ filter (\<lambda>z. \<not> P z) zs
                     else filter P zs @ z # filter (\<lambda>z. \<not> P z) zs)"
    by (rule sort_insert_two_classes [OF cmp]) (simp_all add: list_all_iff)
  finally show ?case by simp
qed

lemma title_first_le:
  "title_first t a b \<le> 0 \<longleftrightarrow>
     str_includes (toLowerCase (r_component a)) t \<or>
     \<not> str_includes (toLowerCase (r_component b)) t"
  by (simp add: title_first_def)

section \<open>The search\<close>

lemma search_visit_eq:
  "search_visit query component results entry =
     results @ (if search_keep query component entry
                then [result_entry (toLowerCase query) (fst entry) (snd entry)] else [])"
  by (simp add: search_visit_def search_keep_def Let_def)

lemma foldl_search_visit:
  "foldl (search_visit query component) acc docs =
     acc @ map (\<lambda>e. result_entry (toLowerCase query) (fst e) (snd e))
              (filter (search_keep query component) docs)"
  by (induction docs arbitrary: acc) (simp_all add: search_visit_eq)

lemma search_collect_eq:
  "search_collect docs query component =
     map (\<lambda>e. result_entry (toLowerCase query) (fst e) (snd e))
       (filter (search_keep query component) docs)"
  by (simp add: search_collect_def foldl_search_visit)

lemma search_results_partition:
  "search_results docs query component =
     filter (\<lambda>e. str_includes (toLowerCase (r_component e)) (toLowerCase query))
       (search_collect docs query component) @
     filter (\<lambda>e. \<not> str_includes (toLowerCase (r_component e)) (toLowerCase query))
       (search_collect docs query component)"
  unfolding search_results_def
  by (rule array_sort_two_classes) (rule title_first_le)

lemma search_keep_None: "search_keep q None = (\<lambda>e. query_occurs q (snd e))"
  by (rule ext)
    (simp add: search_keep_def query_occurs_def truthy_def str_includes_sublist list_ex_iff)

lemma search_keep_Some:
  "search_keep q (Some c) =
     (\<lambda>e. sublist (toLowerCase c) (toLowerCase (title (snd e))) \<and> query_occurs q (snd e))"
  by (rule ext, cases c)
    (auto simp: search_keep_def query_occurs_def truthy_def str_includes_sublist
      list_ex_iff toLowerCase_def)

lemma r_component_result_entry [simp]: "r_component (result_entry t k d) = title d"
  and r_id_result_entry [simp]: "r_id (result_entry t k d) = doc_id d"
  and r_snippet_result_entry [simp]: "r_snippet (result_entry t k d) = snippet t d"
  by (simp_all add: result_entry_def)

lemma snippet_spec: "snippet (toLowerCase q) d = spec_snippet q d"
  by (simp add: snippet_def spec_snippet_def matching_lines_def Let_def str_includes_sublist)

lemma mset_search_results:
  "mset (search_results docs q c) = mset (search_collect docs q c)"
  by (simp add: search_results_partition)

lemma search_collect_Some:
  "search_collect docs q (Some c) =
     filter (\<lambda>e. sublist (toLowerCase c) (toLowerCase (r_component e)))
       (search_collect docs q None)"
  by (simp add: search_collect_eq filter_map comp_def search_keep_None search_keep_Some
      conj_commute)

text \<open>
  Claim C1. For every collection and every query, the search without a component filter
  returns an entry for exactly the documents in which the query occurs (lower-cased, as a
  substring of the title, of the content or of a tag): the ids of the entries are the ids
  of those documents, each once.
\<close>

theorem search_returns_exactly_the_matches:
  "mset (map r_id (search_results docs q None)) =
     mset (map doc_id (filter (query_occurs q) (map snd docs)))"
proof -
  have "mset (map r_id (search_results docs q None)) =
        image_mset r_id (mset (search_collect docs q None))"
    by (simp add: mset_search_results)
  also have "\<dots> = mset (map r_id (search_collect docs q None))"
    by simp
  also have "map r_id (search_collect docs q None) =
        map doc_id (filter (query_occurs q) (map snd docs))"
    by (simp add: search_collect_eq search_keep_None filter_map comp_def)
  finally show ?thesis .
qed

theorem search_returns_exactly_the_matches_witness:
  "mset (map r_id (search_results example_docs ''API'' None)) =
     {#''/primevue/components/button''#}"
proof -
  have "map doc_id (filter (query_occurs ''API'') (map snd example_docs)) =
        [''/primevue/components/button'']"
    by code_simp
  with search_returns_exactly_the_matches [of example_docs "''API''"] show ?thesis
    by simp
qed

text \<open>
  Claim C2. The result sequence of the search is the two-way stable partition of the
  entries collected in iteration order: first the entries whose title contains the query,
  then the others, each class in the order of the iteration; and the entries collected
  are those of the matching documents, in the order of the collection.
\<close>

theorem search_orders_title_matches_first:
  "search_results docs q c =
     filter (\<lambda>e. sublist (toLowerCase q) (toLowerCase (r_component e)))
       (search_collect docs q c) @
     filter (\<lambda>e. \<not> sublist (toLowerCase q) (toLowerCase (r_component e)))
       (search_collect docs q c) \<and>
   search_collect docs q None =
     map (\<lambda>e. result_entry (toLowerCase q) (fst e) (snd e))
       (filter (\<lambda>e. query_occurs q (snd e)) docs)"
  by (simp add: search_results_partition str_includes_sublist search_collect_eq
      search_keep_None)

theorem search_orders_title_matches_first_witness:
  "map r_id (search_collect example_docs ''ACC'' None) =
     [''/primevue/components/button'', ''/primevue/components/accordion''] \<and>
   map r_id (search_results example_docs ''ACC'' None) =
     [''/primevue/components/accordion'', ''/primevue/components/button'']"
proof -
  have c: "map r_id (search_collect example_docs ''ACC'' None) =
     [''/primevue/components/button'', ''/primevue/components/accordion'']"
    by code_simp
  have "map r_id
     (filter (\<lambda>e. sublist (toLowerCase ''ACC'') (toLowerCase (r_component e)))
        (search_collect example_docs ''ACC'' None) @
      filter (\<lambda>e. \<not> sublist (toLowerCase ''ACC'') (toLowerCase (r_component e)))
        (search_collect example_docs ''ACC'' None)) =
     [''/primevue/components/accordion'', ''/primevue/components/button'']"
    by code_simp
  with c search_orders_title_matches_first [of example_docs "''ACC''" None] show ?thesis
    by simp
qed

text \<open>
  Claim C6. For every query and component name, the results of the search with the
  component argument are the results of the search without it, restricted to the entries
  whose title contains the component name case-insensitively (in the same order); so they
  form a subset of them, and the component name is a filter only, never a reason to match.
\<close>

theorem search_component_is_a_prefilter:
  "search_results docs q (Some c) =
     filter (\<lambda>e. sublist (toLowerCase c) (toLowerCase (r_component e)))
       (search_results docs q None) \<and>
   set (search_results docs q (Some c)) \<subseteq>
     {e \<in> set (search_results docs q None).
        sublist (toLowerCase c) (toLowerCase (r_component e))}"
proof -
  have "search_results docs q (Some c) =
     filter (\<lambda>e. sublist (toLowerCase c) (toLowerCase (r_component e)))
       (search_results docs q None)"
    by (simp add: search_results_partition search_collect_Some conj_commute)
  then show ?thesis by simp
qed

theorem search_component_is_a_prefilter_witness:
  "map r_id (search_results example_docs ''acc'' None) =
     [''/primevue/components/accordion'', ''/primevue/components/button''] \<and>
   map r_id (search_results example_docs ''acc'' (Some ''BUT'')) =
     [''/primevue/components/button'']"
proof -
  have a: "map r_id (search_results example_docs ''acc'' None) =
     [''/primevue/components/accordion'', ''/primevue/components/button'']"
    by code_simp
  have "map r_id (filter (\<lambda>e. sublist (toLowerCase ''BUT'') (toLowerCase (r_component e)))
       (search_results example_docs ''acc'' None)) = [''/primevue/components/button'']"
    by code_simp
  with a search_component_is_a_prefilter [of example_docs "''acc''" "''BUT''"] show ?thesis
    by simp
qed

text \<open>
  Claim C8. For each document the search matches, the snippet of its entry is made of
  the first three (at most) of the lines of the content that contain the query
  case-insensitively, joined by newlines in their order; when no line contains the query
  it is the title followed by " documentation". The lines are the pieces of the content
  between newlines.
\<close>

theorem search_snippet_is_first_three_matching_lines:
  "mset (map (\<lambda>e. (r_id e, r_snippet e)) (search_results docs q None)) =
     mset (map (\<lambda>d. (doc_id d, spec_snippet q d)) (filter (query_occurs q) (map snd docs))) \<and>
   (\<forall>e \<in> set (search_results docs q c).
      \<exists>d \<in> snd ` set docs. query_occurs q d \<and> r_id e = doc_id d \<and>
        r_snippet e = spec_snippet q d) \<and>
   join (split s CHR ''\<newline>'') ''\<newline>'' = s \<and>
   list_all (\<lambda>l. CHR ''\<newline>'' \<notin> set l) (split s CHR ''\<newline>'')"
proof -
  have "mset (map (\<lambda>e. (r_id e, r_snippet e)) (search_results docs q None)) =
        image_mset (\<lambda>e. (r_id e, r_snippet e)) (mset (search_collect docs q None))"
    by (simp add: mset_search_results)
  also have "\<dots> = mset (map (\<lambda>e. (r_id e, r_snippet e)) (search_collect docs q None))"
    by simp
  also have "map (\<lambda>e. (r_id e, r_snippet e)) (search_collect docs q None) =
        map (\<lambda>d. (doc_id d, spec_snippet q d)) (filter (query_occurs q) (map snd docs))"
    by (simp add: search_collect_eq search_keep_None filter_map comp_def snippet_spec)
  finally have all: "mset (map (\<lambda>e. (r_id e, r_snippet e)) (search_results docs q None)) =
     mset (map (\<lambda>d. (doc_id d, spec_snippet q d)) (filter (query_occurs q) (map snd docs)))" .
  have each: "\<exists>d \<in> snd ` set docs. query_occurs q d \<and> r_id e = doc_id d \<and>
        r_snippet e = spec_snippet q d" if "e \<in> set (search_results docs q c)" for e
  proof -
    from that have "e \<in> set (search_collect docs q c)"
      using mset_search_results [of docs q c] by (metis set_mset_mset)
    then obtain kd where kd: "kd \<in> set docs" "search_keep q c kd"
      and e: "e = result_entry (toLowerCase q) (fst kd) (snd kd)"
      by (auto simp: search_collect_eq)
    from kd(2) have "query_occurs q (snd kd)"
      by (simp add: search_keep_def query_occurs_def str_includes_sublist list_ex_iff)
    with kd(1) e show ?thesis
      by (intro bexI [of _ "snd kd"]) (simp_all add: snippet_spec)
  qed
  from all each show ?thesis
    by (simp add: join_split split_no_sep)
qed

theorem search_snippet_is_first_three_matching_lines_witness:
  "result_entry ''b'' ''/primevue/components/button'' example_button
     \<in> set (search_results example_docs ''B'' None) \<and>
   spec_snippet ''B'' example_button = ''Button, not accordion.\<newline>props: label'' \<and>
   spec_snippet ''X'' example_button = ''button documentation'' \<and>
   (\<exists>d \<in> snd ` set example_docs.
      r_snippet (result_entry ''b'' ''/primevue/components/button'' example_button) =
        spec_snippet ''B'' d)"
proof -
  let ?e = "result_entry ''b'' ''/primevue/components/button'' example_button"
  have m: "?e \<in> set (search_results example_docs ''B'' None)"
    by code_simp
  have s: "spec_snippet ''B'' example_button = ''Button, not accordion.\<newline>props: label''"
    "spec_snippet ''X'' example_button = ''button documentation''"
    by code_simp+
  from search_snippet_is_first_three_matching_lines [of example_docs "''B''" None "[]"] m
  have "\<exists>d \<in> snd ` set example_docs. query_occurs ''B'' d \<and> r_id ?e = doc_id d \<and>
        r_snippet ?e = spec_snippet ''B'' d"
    by blast
  with m s show ?thesis by blast
qed

section \<open>Sorting with a consistent comparator\<close>

lemma mset_sort_insert: "mset (sort_insert cmp x xs) = add_mset x (mset xs)"
  by (induction xs) simp_all

lemma mset_array_sort: "mset (array_sort cmp xs) = mset xs"
  by (induction xs) (simp_all add: array_sort_def mset_sort_insert)

lemma set_sort_insert: "set (sort_insert cmp x xs) = insert x (set xs)"
  by (induction xs) auto

lemma set_array_sort: "set (array_sort cmp xs) = set xs"
  using mset_array_sort [of cmp xs] by (metis set_mset_mset)

lemma length_array_sort: "length (array_sort cmp xs) = length xs"
  using mset_array_sort [of cmp xs] by (metis size_mset)

lemma consistent_cmp_total: "consistent_cmp cmp \<Longrightarrow> cmp a b \<le> 0 \<or> cmp b a \<le> 0"
  unfolding consistent_cmp_def by (metis not_le order_less_imp_le)

lemma consistent_cmp_trans:
  "consistent_cmp cmp \<Longrightarrow> cmp a b \<le> 0 \<Longrightarrow> cmp b c \<le> 0 \<Longrightarrow> cmp a c \<le> 0"
  unfolding consistent_cmp_def by blast


lemma sorted_sort_insert:
  assumes "consistent_cmp cmp" and "sorted_wrt (\<lambda>a b. cmp a b \<le> 0) xs"
  shows "sorted_wrt (\<lambda>a b. cmp a b \<le> 0) (sort_insert cmp x xs)"
  using assms(2)
proof (induction xs)
  case Nil
  show ?case by simp
next
  case (Cons y ys)
  show ?case
  proof (cases "cmp x y \<le> 0")
    case True
    have "cmp x z \<le> 0" if "z \<in> set ys" for z
      using consistent_cmp_trans [OF assms(1) True] Cons.prems that by simp
    with True Cons.prems show ?thesis by simp
  next
    case False
    then have "cmp y x \<le> 0"
      using consistent_cmp_total [OF assms(1), of x y] by simp
    with False Cons show ?thesis by (auto simp: set_sort_insert)
  qed
qed

lemma sorted_array_sort:
  "consistent_cmp cmp \<Longrightarrow> sorted_wrt (\<lambda>a b. cmp a b \<le> 0) (array_sort cmp xs)"
  by (induction xs) (simp_all add: array_sort_def sorted_sort_insert)

subsection \<open>The default comparator\<close>

lemma compare_units_eq: "compare_units a b = 0 \<longleftrightarrow> a = b"
  by (induction a b rule: compare_units.induct) auto

lemma compare_units_flip: "compare_units b a = - compare_units a b"
  by (induction a b rule: compare_units.induct) auto

lemma compare_units_lexord:
  "compare_units a b < 0 \<longleftrightarrow> (a, b) \<in> lexord {(x, y). (of_char x :: nat) < of_char y}"
  by (induction a b rule: compare_units.induct) auto

lemma compare_units_le:
  "compare_units a b \<le> 0 \<longleftrightarrow> a = b \<or> (a, b) \<in> lexord {(x, y). (of_char x :: nat) < of_char y}"
  using compare_units_eq [of a b] compare_units_lexord [of a b] by auto

lemma trans_units: "trans {(x :: char, y). (of_char x :: nat) < of_char y}"
  by (auto simp: trans_def)

lemma consistent_compare_units: "consistent_cmp compare_units"
  unfolding consistent_cmp_def
proof (intro conjI allI impI)
  fix a b show "(compare_units a b < 0) = (0 < compare_units b a)"
    using compare_units_flip [of b a] by simp
next
  fix a b c assume "compare_units a b \<le> 0 \<and> compare_units b c \<le> 0"
  then show "compare_units a c \<le> 0"
    unfolding compare_units_le
    using lexord_trans [OF _ _ trans_units] by blast
qed





section \<open>The listing of get_component_api\<close>




















subsection \<open>The two lookups and the failure of the listing\<close>

lemma lookup_component_by_title:
  "List.find (\<lambda>d. toLowerCase (title d) = toLowerCase component) (map snd docs) = Some d \<Longrightarrow>
   lookup_component docs component = Some d"
  by (simp add: lookup_component_def)

lemma lookup_component_by_key:
  "List.find (\<lambda>d. toLowerCase (title d) = toLowerCase component) (map snd docs) = None \<Longrightarrow>
   lookup_component docs component =
     Map_get docs (''/primevue/components/'' @ toLowerCase component)"
  by (simp add: lookup_component_def)

lemma get_component_api_found:
  "lookup_component docs component = Some d \<Longrightarrow>
   get_component_api lc docs component = Inr (api_reference d)"
  by (simp add: get_component_api_def)

text \<open>
  Claim C3 at a collection with a page in a directory called \<^verbatim>\<open>constructor\<close>: neither
  lookup finds the component \<^verbatim>\<open>slider\<close>, and building the listing raises a
  \<^verbatim>\<open>TypeError\<close> instead of returning it; \<^verbatim>\<open>list_categories\<close>, which groups the same
  collection in a \<^verbatim>\<open>Map\<close>, returns.
\<close>

theorem component_listing_raises_on_prototype_key:
  "lookup_component constructor_docs ''slider'' = None \<and>
   get_component_api compare_units constructor_docs ''slider'' = Inl TypeError \<and>
   list_categories constructor_docs None =
     Inr ''PrimeVue Documentation Categories:\<newline>\<newline>**constructor** (1 items)\<newline>  - Intro''"
  by code_simp

section \<open>The categories\<close>

lemma map_of_Map_set: "map_of (Map_set m k v) = (map_of m)(k \<mapsto> v)"
  by (induction m k v rule: Map_set.induct) auto

lemma fst_Map_set:
  "map fst (Map_set m k v) = (if k \<in> set (map fst m) then map fst m else map fst m @ [k])"
  by (induction m k v rule: Map_set.induct) auto

lemma keys_Map_set: "set (map fst (Map_set m k v)) = insert k (set (map fst m))"
  by (auto simp: fst_Map_set)

lemma distinct_Map_set: "distinct (map fst m) \<Longrightarrow> distinct (map fst (Map_set m k v))"
  by (simp add: fst_Map_set)


lemma Map_set_fresh: "k \<notin> set (map fst m) \<Longrightarrow> Map_set m k v = m @ [(k, v)]"
  by (induction m k v rule: Map_set.induct) auto

lemma concat_Map_set:
  "distinct (map fst m) \<Longrightarrow> map_of m k = Some arr \<Longrightarrow>
   mset (concat (map snd (Map_set m k (arr @ [t])))) = add_mset t (mset (concat (map snd m)))"
proof (induction m k "arr @ [t]" rule: Map_set.induct)
  case (1 k)
  then show ?case by simp
next
  case (2 k' v' m k)
  show ?case
  proof (cases "k' = k")
    case True
    with 2 show ?thesis by simp
  next
    case False
    with 2 show ?thesis by simp
  qed
qed




lemma categories_visit_ok:
  assumes "distinct (map fst cats)"
  shows "\<exists>cats'. categories_visit None cats entry = Inr cats' \<and> distinct (map fst cats') \<and>
     (\<forall>k. titles_of cats' k =
        titles_of cats k @
          (if category_or_unknown (snd entry) = k then [title (snd entry)] else [])) \<and>
     set (map fst cats') = insert (category_or_unknown (snd entry)) (set (map fst cats)) \<and>
     mset (concat (map snd cats')) = add_mset (title (snd entry)) (mset (concat (map snd cats)))"
proof -
  define k where "k = category_or_unknown (snd entry)"
  define t where "t = title (snd entry)"
  define cats1 where "cats1 = (if Map_get cats k = None then Map_set cats k [] else cats)"
  define arr where "arr = titles_of cats k"
  have d1: "distinct (map fst cats1)"
    using assms by (simp add: cats1_def distinct_Map_set)
  have g1: "map_of cats1 k = Some arr"
    by (auto simp: cats1_def arr_def titles_of_def Map_get_def map_of_Map_set)
  have t1: "titles_of cats1 k' = titles_of cats k'" for k'
    by (auto simp: cats1_def titles_of_def Map_get_def map_of_Map_set)
  have s1: "set (map fst cats1) = insert k (set (map fst cats))"
  proof (cases "Map_get cats k = None")
    case True
    then have "cats1 = Map_set cats k []" by (simp add: cats1_def)
    then show ?thesis by (simp only: keys_Map_set)
  next
    case False
    then have "k \<in> set (map fst cats)"
      by (simp add: Map_get_def map_of_eq_None_iff)
    with False show ?thesis by (auto simp: cats1_def)
  qed
  have m1: "mset (concat (map snd cats1)) = mset (concat (map snd cats))"
    by (auto simp: cats1_def Map_get_def Map_set_fresh map_of_eq_None_iff)
  define cats' where "cats' = Map_set cats1 k (arr @ [t])"
  have "categories_visit None cats entry =
      (case Map_get cats1 k of
         None \<Rightarrow> Inl TypeError
       | Some arr \<Rightarrow> Inr (Map_set cats1 k (arr @ [t])))"
    unfolding categories_visit_def Let_def k_def t_def cats1_def truthy_def by simp
  then have step: "categories_visit None cats entry = Inr cats'"
    using g1 by (simp add: Map_get_def cats'_def)
  have "distinct (map fst cats')"
    using d1 by (simp add: cats'_def distinct_Map_set)
  moreover have "\<forall>k'. titles_of cats' k' = titles_of cats k' @ (if k = k' then [t] else [])"
    using t1 by (auto simp: cats'_def titles_of_def map_of_Map_set arr_def)
  moreover have "set (map fst cats') = insert k (set (map fst cats))"
    using s1 by (simp only: cats'_def keys_Map_set) simp
  moreover have "mset (concat (map snd cats')) = add_mset t (mset (concat (map snd cats)))"
    using concat_Map_set [OF d1 g1, of t] m1 by (simp add: cats'_def)
  ultimately show ?thesis
    using step unfolding k_def t_def by blast
qed

lemma categories_loop_ok:
  assumes "distinct (map fst cats)"
  shows "\<exists>cats'. categories_loop None cats docs = Inr cats' \<and> distinct (map fst cats') \<and>
     (\<forall>k. titles_of cats' k =
        titles_of cats k @
          map (\<lambda>e. title (snd e)) (filter (\<lambda>e. category_or_unknown (snd e) = k) docs)) \<and>
     set (map fst cats') =
       set (map fst cats) \<union> (\<lambda>e. category_or_unknown (snd e)) ` set docs \<and>
     mset (concat (map snd cats')) =
       mset (concat (map snd cats)) + mset (map (\<lambda>e. title (snd e)) docs)"
  using assms
proof (induction docs arbitrary: cats)
  case Nil
  then show ?case by simp
next
  case (Cons entry rest)
  from categories_visit_ok [OF Cons.prems, of entry] obtain cats1 where
    step: "categories_visit None cats entry = Inr cats1" and d1: "distinct (map fst cats1)"
    and t1: "\<And>k. titles_of cats1 k =
        titles_of cats k @
          (if category_or_unknown (snd entry) = k then [title (snd entry)] else [])"
    and s1: "set (map fst cats1) = insert (category_or_unknown (snd entry)) (set (map fst cats))"
    and m1: "mset (concat (map snd cats1)) =
        add_mset (title (snd entry)) (mset (concat (map snd cats)))"
    by blast
  from Cons.IH [OF d1] obtain cats' where
    r: "categories_loop None cats1 rest = Inr cats'" and d: "distinct (map fst cats')"
    and t: "\<And>k. titles_of cats' k =
        titles_of cats1 k @
          map (\<lambda>e. title (snd e)) (filter (\<lambda>e. category_or_unknown (snd e) = k) rest)"
    and s: "set (map fst cats') =
       set (map fst cats1) \<union> (\<lambda>e. category_or_unknown (snd e)) ` set rest"
    and m: "mset (concat (map snd cats')) =
       mset (concat (map snd cats1)) + mset (map (\<lambda>e. title (snd e)) rest)"
    by blast
  have "categories_loop None cats (entry # rest) = Inr cats'"
    using step r by simp
  moreover have "\<forall>k. titles_of cats' k =
        titles_of cats k @
          map (\<lambda>e. title (snd e))
            (filter (\<lambda>e. category_or_unknown (snd e) = k) (entry # rest))"
    using t t1 by simp
  moreover have "set (map fst cats') =
       set (map fst cats) \<union> (\<lambda>e. category_or_unknown (snd e)) ` set (entry # rest)"
    using s s1 by auto
  moreover have "mset (concat (map snd cats')) =
       mset (concat (map snd cats)) + mset (map (\<lambda>e. title (snd e)) (entry # rest))"
    using m m1 by simp
  ultimately show ?case using d by blast
qed

lemma sorted_sorted_group:
  "sorted_wrt (\<lambda>a b. a = b \<or> (a, b) \<in> lexord {(x, y). (of_char x :: nat) < of_char y})
     (snd (sorted_group g))"
  using sorted_array_sort [OF consistent_compare_units, of "snd g"]
  by (simp add: sorted_group_def compare_units_le)

lemma mset_sorted_group: "mset (snd (sorted_group g)) = mset (snd g)"
  by (simp add: sorted_group_def mset_array_sort)

lemma fst_sorted_group: "map fst (map sorted_group cats) = map fst cats"
  by (simp add: sorted_group_def)

lemma length_concat_sorted_groups:
  "sum_list (map (\<lambda>g. length (snd g)) (map sorted_group cats)) = length (concat (map snd cats))"
  by (induction cats) (simp_all add: sorted_group_def length_array_sort)

text \<open>
  Claim C9. \<^verbatim>\<open>list_categories\<close> without a filter returns, and its text lists the groups
  one after the other, each with its name, its number of items and its titles. There is
  exactly one group for each category that occurs in the collection (the first path
  segment of \<^verbatim>\<open>metadata.file\<close>, or \<^verbatim>\<open>Unknown\<close> when that segment is empty); the
  item counts add up to the number of documents; each group holds the titles of the
  documents of its category, sorted lexicographically by code units.
\<close>

theorem list_categories_groups_every_document:
  "\<exists>groups.
     category_groups docs None = Inr groups \<and>
     list_categories docs None =
       Inr (''PrimeVue Documentation Categories:\<newline>\<newline>'' @
            join (map render_category groups) ''\<newline>\<newline>'') \<and>
     distinct (map fst groups) \<and>
     set (map fst groups) =
       (\<lambda>e. if takeWhile (\<lambda>c. c \<noteq> CHR ''/'') (meta_file (metadata (snd e))) = []
            then ''Unknown''
            else takeWhile (\<lambda>c. c \<noteq> CHR ''/'') (meta_file (metadata (snd e)))) ` set docs \<and>
     sum_list (map (\<lambda>g. length (snd g)) groups) = length docs \<and>
     (\<forall>g \<in> set groups.
        mset (snd g) =
          mset (map (\<lambda>e. title (snd e))
                 (filter (\<lambda>e. category_or_unknown (snd e) = fst g) docs)) \<and>
        sorted_wrt (\<lambda>a b. a = b \<or> (a, b) \<in> lexord {(x, y). (of_char x :: nat) < of_char y})
          (snd g))"
proof -
  from categories_loop_ok [of "[]" docs] obtain cats where
    r: "categories_loop None [] docs = Inr cats" and d: "distinct (map fst cats)"
    and t: "\<And>k. titles_of cats k =
          map (\<lambda>e. title (snd e)) (filter (\<lambda>e. category_or_unknown (snd e) = k) docs)"
    and s: "set (map fst cats) = (\<lambda>e. category_or_unknown (snd e)) ` set docs"
    and m: "mset (concat (map snd cats)) = mset (map (\<lambda>e. title (snd e)) docs)"
    by (auto simp: titles_of_def)
  define groups where "groups = map sorted_group cats"
  have g: "category_groups docs None = Inr groups"
    using r by (simp add: category_groups_def groups_def)
  have out: "list_categories docs None =
       Inr (''PrimeVue Documentation Categories:\<newline>\<newline>'' @
            join (map render_category groups) ''\<newline>\<newline>'')"
    using g by (simp add: list_categories_def truthy_def)
  have names: "map fst groups = map fst cats"
    unfolding groups_def by (rule fst_sorted_group)
  have "length (concat (map snd cats)) = length docs"
    using m by (metis length_map size_mset)
  then have total: "sum_list (map (\<lambda>g. length (snd g)) groups) = length docs"
    unfolding groups_def by (simp only: length_concat_sorted_groups)
  have each: "mset (snd g) =
          mset (map (\<lambda>e. title (snd e))
                 (filter (\<lambda>e. category_or_unknown (snd e) = fst g) docs)) \<and>
        sorted_wrt (\<lambda>a b. a = b \<or> (a, b) \<in> lexord {(x, y). (of_char x :: nat) < of_char y})
          (snd g)" if "g \<in> set groups" for g
  proof -
    from that obtain c where c: "c \<in> set cats" and gc: "g = sorted_group c"
      by (auto simp: groups_def)
    have "map_of cats (fst c) = Some (snd c)"
      using d c by (cases c) simp
    then have "snd c = map (\<lambda>e. title (snd e))
        (filter (\<lambda>e. category_or_unknown (snd e) = fst c) docs)"
      using t [of "fst c"] by (simp add: titles_of_def)
    moreover have "fst g = fst c"
      by (simp add: gc sorted_group_def)
    ultimately show ?thesis
      using mset_sorted_group [of c] sorted_sorted_group [of c] by (simp add: gc)
  qed
  have keys: "set (map fst groups) =
       (\<lambda>e. if takeWhile (\<lambda>c. c \<noteq> CHR ''/'') (meta_file (metadata (snd e))) = []
            then ''Unknown''
            else takeWhile (\<lambda>c. c \<noteq> CHR ''/'') (meta_file (metadata (snd e)))) ` set docs"
  proof -
    have "set (map fst groups) = (\<lambda>e. category_or_unknown (snd e)) ` set docs"
      using s names by simp
    also have "\<dots> =
       (\<lambda>e. if takeWhile (\<lambda>c. c \<noteq> CHR ''/'') (meta_file (metadata (snd e))) = []
            then ''Unknown''
            else takeWhile (\<lambda>c. c \<noteq> CHR ''/'') (meta_file (metadata (snd e)))) ` set docs"
      by (rule image_cong [OF refl]) (rule category_or_unknown_eq)
    finally show ?thesis .
  qed
  have "distinct (map fst groups)"
    using d names by simp
  with g out keys total each show ?thesis
    by (intro exI [of _ groups] conjI ballI) simp_all
qed

theorem list_categories_groups_every_document_witness:
  "category_groups example_docs None = Inr [(''components'', [''Accordion'', ''button''])] \<and>
   list_categories example_docs None =
     Inr ''PrimeVue Documentation Categories:\<newline>\<newline>**components** (2 items)\<newline>  - Accordion\<newline>  - button'' \<and>
   sum_list (map (\<lambda>g. length (snd g)) [(''components'', [''Accordion'', ''button''])]) =
     length example_docs \<and>
   sorted_wrt (\<lambda>a b. a = b \<or> (a, b) \<in> lexord {(x, y). (of_char x :: nat) < of_char y})
     [''Accordion'', ''button'']"
proof -
  have g: "category_groups example_docs None =
      Inr [(''components'', [''Accordion'', ''button''])]"
    by code_simp
  have r: "join (map render_category [(''components'', [''Accordion'', ''button''])])
             ''\<newline>\<newline>'' =
           ''**components** (2 items)\<newline>  - Accordion\<newline>  - button''"
    by code_simp
  from list_categories_groups_every_document [of example_docs] obtain groups where
    "category_groups example_docs None = Inr groups"
    and out: "list_categories example_docs None =
       Inr (''PrimeVue Documentation Categories:\<newline>\<newline>'' @
            join (map render_category groups) ''\<newline>\<newline>'')"
    and total: "sum_list (map (\<lambda>g. length (snd g)) groups) = length example_docs"
    and each: "\<forall>g \<in> set groups.
        mset (snd g) =
          mset (map (\<lambda>e. title (snd e))
                 (filter (\<lambda>e. category_or_unknown (snd e) = fst g) example_docs)) \<and>
        sorted_wrt (\<lambda>a b. a = b \<or> (a, b) \<in> lexord {(x, y). (of_char x :: nat) < of_char y})
          (snd g)"
    by blast
  with g have groups: "groups = [(''components'', [''Accordion'', ''button''])]"
    by simp
  from each have "sorted_wrt
      (\<lambda>a b. a = b \<or> (a, b) \<in> lexord {(x, y). (of_char x :: nat) < of_char y})
      [''Accordion'', ''button'']"
    unfolding groups by simp
  moreover from out r have "list_categories example_docs None =
     Inr ''PrimeVue Documentation Categories:\<newline>\<newline>**components** (2 items)\<newline>  - Accordion\<newline>  - button''"
    unfolding groups by simp
  ultimately show ?thesis using g total unfolding groups by blast
qed

section \<open>The resource\<close>










section \<open>The API reference of get_component_api\<close>

lemma indexOf_lower: "- 1 \<le> indexOf s pat"
  by (induction s) (auto simp: Let_def)

lemma indexOf_found: "- 1 < indexOf s pat \<longleftrightarrow> sublist pat s"
proof (induction s)
  case Nil
  show ?case by simp
next
  case (Cons c cs)
  then show ?case
    using indexOf_lower [of cs pat] by (auto simp: Let_def sublist_Cons_right)
qed

lemma indexOf_prefix: "0 \<le> indexOf s pat \<Longrightarrow> prefix pat (drop (nat (indexOf s pat)) s)"
proof (induction s)
  case Nil
  then show ?case by (simp split: if_splits)
next
  case (Cons c cs)
  show ?case
  proof (cases "prefix pat (c # cs)")
    case True
    then show ?thesis by simp
  next
    case False
    with Cons.prems have i: "0 \<le> indexOf cs pat"
      by (simp add: Let_def split: if_splits)
    with False have "indexOf (c # cs) pat = indexOf cs pat + 1"
      by (simp add: Let_def)
    moreover have "nat (indexOf cs pat + 1) = Suc (nat (indexOf cs pat))"
      using i by simp
    ultimately show ?thesis using Cons.IH [OF i] by simp
  qed
qed

lemma indexOf_least: "i < nat (indexOf s pat) \<Longrightarrow> \<not> prefix pat (drop i s)"
proof (induction s arbitrary: i)
  case Nil
  then show ?case by (simp split: if_splits)
next
  case (Cons c cs)
  show ?case
  proof (cases "prefix pat (c # cs)")
    case True
    with Cons.prems show ?thesis by simp
  next
    case False
    show ?thesis
    proof (cases i)
      case 0
      with False show ?thesis by simp
    next
      case (Suc j)
      from Cons.prems False have "0 \<le> indexOf cs pat"
        by (simp add: Let_def split: if_splits)
      with Cons.prems False Suc have "j < nat (indexOf cs pat)"
        by (simp add: Let_def)
      from Cons.IH [OF this] Suc show ?thesis by simp
    qed
  qed
qed

lemma api_section_absent: "\<not> sublist ''### API'' s \<Longrightarrow> api_section s = s"
  using indexOf_found [of s "''### API''"] by (simp add: api_section_def Let_def)

lemma api_section_present:
  assumes "sublist ''### API'' s"
  shows "\<exists>pre. s = pre @ api_section s \<and> prefix ''### API'' (api_section s) \<and>
           (\<forall>i<length pre. \<not> prefix ''### API'' (drop i s))"
proof -
  define m where "m = ''### API''"
  define n where "n = nat (indexOf s m)"
  from assms have pos: "0 \<le> indexOf s m"
    using indexOf_found [of s m] by (simp add: m_def)
  then have sec: "api_section s = drop n s"
    by (simp add: api_section_def Let_def substring_def n_def m_def)
  have "s = take n s @ api_section s"
    by (simp add: sec)
  moreover have "prefix m (api_section s)"
    unfolding sec n_def by (rule indexOf_prefix [OF pos])
  moreover have "\<forall>i<length (take n s). \<not> prefix m (drop i s)"
    by (simp add: n_def indexOf_least)
  ultimately show ?thesis unfolding m_def by blast
qed

text \<open>
  Claim C7. When \<^verbatim>\<open>get_component_api\<close> finds a document, the text returned is made of
  the title, the category (the first path segment of \<^verbatim>\<open>metadata.file\<close>), the tags, and
  a section of the content: the content from the first occurrence of \<^verbatim>\<open>### API\<close> on
  when the marker occurs, the whole content otherwise.
\<close>

theorem component_api_reference_from_marker:
  assumes "lookup_component docs component = Some d"
  shows "\<exists>pre sec.
     get_component_api lc docs component =
       Inr (''# '' @ title d @ '' API Reference\<newline>Category: '' @
            takeWhile (\<lambda>c. c \<noteq> CHR ''/'') (meta_file (metadata d)) @
            ''\<newline>Tags: '' @ join (tags d) '', '' @ ''\<newline>\<newline>'' @ sec) \<and>
     (if sublist ''### API'' (content_value (content d))
      then content_value (content d) = pre @ sec \<and> prefix ''### API'' sec \<and>
           (\<forall>i<length pre. \<not> prefix ''### API'' (drop i (content_value (content d))))
      else sec = content_value (content d))"
proof -
  let ?s = "content_value (content d)"
  have out: "get_component_api lc docs component =
       Inr (''# '' @ title d @ '' API Reference\<newline>Category: '' @
            takeWhile (\<lambda>c. c \<noteq> CHR ''/'') (meta_file (metadata d)) @
            ''\<newline>Tags: '' @ join (tags d) '', '' @ ''\<newline>\<newline>'' @ api_section ?s)"
    using assms by (simp add: get_component_api_def api_reference_def category_shown_eq)
  show ?thesis
  proof (cases "sublist ''### API'' ?s")
    case True
    from api_section_present [OF True] obtain pre where
      "?s = pre @ api_section ?s \<and> prefix ''### API'' (api_section ?s) \<and>
           (\<forall>i<length pre. \<not> prefix ''### API'' (drop i ?s))" ..
    with out True show ?thesis
      by - (rule exI [of _ pre], rule exI [of _ "api_section ?s"], simp only: if_True, blast)
  next
    case False
    with out api_section_absent [OF False] show ?thesis
      by - (rule exI [of _ "[] :: string"], rule exI [of _ "api_section ?s"], simp)
  qed
qed

theorem component_api_reference_from_marker_witness:
  "lookup_component example_docs ''BUTTON'' = Some example_button \<and>
   sublist ''### API'' (content_value (content example_button)) \<and>
   (\<exists>pre sec.
      get_component_api compare_units example_docs ''BUTTON'' =
        Inr (''# button API Reference\<newline>Category: components\<newline>Tags: components, form\<newline>\<newline>'' @ sec) \<and>
      content_value (content example_button) = pre @ sec \<and> prefix ''### API'' sec)"
proof -
  have h: "lookup_component example_docs ''BUTTON'' = Some example_button"
    by code_simp
  have m: "sublist ''### API'' (content_value (content example_button))"
    by code_simp
  have t: "''# '' @ title example_button @ '' API Reference\<newline>Category: '' @
            takeWhile (\<lambda>c. c \<noteq> CHR ''/'') (meta_file (metadata example_button)) @
            ''\<newline>Tags: '' @ join (tags example_button) '', '' @ ''\<newline>\<newline>'' =
      ''# button API Reference\<newline>Category: components\<newline>Tags: components, form\<newline>\<newline>''"
    by code_simp
  from component_api_reference_from_marker [OF h, of compare_units] m obtain pre sec where
    "get_component_api compare_units example_docs ''BUTTON'' =
       Inr (''# '' @ title example_button @ '' API Reference\<newline>Category: '' @
            takeWhile (\<lambda>c. c \<noteq> CHR ''/'') (meta_file (metadata example_button)) @
            ''\<newline>Tags: '' @ join (tags example_button) '', '' @ ''\<newline>\<newline>'' @ sec)"
    and "content_value (content example_button) = pre @ sec" and "prefix ''### API'' sec"
    by (auto split: if_splits)
  then have "get_component_api compare_units example_docs ''BUTTON'' =
        Inr (''# button API Reference\<newline>Category: components\<newline>Tags: components, form\<newline>\<newline>'' @ sec) \<and>
      content_value (content example_button) = pre @ sec \<and> prefix ''### API'' sec"
    using t by (metis append_assoc)
  with h m show ?thesis by blast
qed

lemma string_of_nat_1: "string_of_nat (Suc 0) = ''1''"
  by code_simp

text \<open>
  Claim C10. In the found branch of \<^verbatim>\<open>get_component_api\<close> the category shown is the
  first path segment without a fallback: for a document whose \<^verbatim>\<open>metadata.file\<close> is empty
  or begins with a slash the text shows an empty category, while the entry of the search
  and the group of \<^verbatim>\<open>list_categories\<close> for the same document say \<^verbatim>\<open>Unknown\<close>.
\<close>

theorem component_api_shows_empty_category:
  assumes "lookup_component docs component = Some d"
    and "meta_file (metadata d) = [] \<or> prefix ''/'' (meta_file (metadata d))"
  shows "get_component_api lc docs component =
       Inr (''# '' @ title d @ '' API Reference\<newline>Category: '' @ [] @
            ''\<newline>Tags: '' @ join (tags d) '', '' @ ''\<newline>\<newline>'' @
            api_section (content_value (content d))) \<and>
     r_category (result_entry t k d) = ''Unknown'' \<and>
     list_categories [(k, d)] None =
       Inr (''PrimeVue Documentation Categories:\<newline>\<newline>'' @
            ''**Unknown** (1 items)\<newline>  - '' @ title d)"
proof -
  have seg: "takeWhile (\<lambda>c. c \<noteq> CHR ''/'') (meta_file (metadata d)) = []"
    using assms(2) by (auto simp: prefix_def)
  then have shown: "category_shown d = []" and cat: "category_or_unknown d = ''Unknown''"
    by (simp_all add: category_shown_eq category_or_unknown_eq)
  have "get_component_api lc docs component =
       Inr (''# '' @ title d @ '' API Reference\<newline>Category: '' @ [] @
            ''\<newline>Tags: '' @ join (tags d) '', '' @ ''\<newline>\<newline>'' @
            api_section (content_value (content d)))"
    using assms(1) shown by (simp add: get_component_api_def api_reference_def)
  moreover have "r_category (result_entry t k d) = ''Unknown''"
    using cat by (simp add: result_entry_def)
  moreover have "list_categories [(k, d)] None =
       Inr (''PrimeVue Documentation Categories:\<newline>\<newline>'' @
            ''**Unknown** (1 items)\<newline>  - '' @ title d)"
    using cat
    by (simp add: list_categories_def category_groups_def categories_visit_def truthy_def
        Map_get_def sorted_group_def array_sort_def render_category_def string_of_nat_1)
  ultimately show ?thesis by blast
qed

theorem component_api_shows_empty_category_witness:
  "lookup_component unfiled_docs ''start'' = Some example_unfiled \<and>
   (meta_file (metadata example_unfiled) = [] \<or>
    prefix ''/'' (meta_file (metadata example_unfiled))) \<and>
   get_component_api compare_units unfiled_docs ''start'' =
     Inr ''# Start API Reference\<newline>Category: \<newline>Tags: guide\<newline>\<newline>Get started'' \<and>
   r_category (result_entry ''start'' ''/primevue//start'' example_unfiled) = ''Unknown''"
proof -
  have h1: "lookup_component unfiled_docs ''start'' = Some example_unfiled"
    by code_simp
  have h2: "meta_file (metadata example_unfiled) = [] \<or>
      prefix ''/'' (meta_file (metadata example_unfiled))"
    by code_simp
  have t: "''# '' @ title example_unfiled @ '' API Reference\<newline>Category: '' @ [] @
            ''\<newline>Tags: '' @ join (tags example_unfiled) '', '' @ ''\<newline>\<newline>'' @
            api_section (content_value (content example_unfiled)) =
      ''# Start API Reference\<newline>Category: \<newline>Tags: guide\<newline>\<newline>Get started''"
    by code_simp
  from component_api_shows_empty_category
    [OF h1 h2, of compare_units "''start''" "''/primevue//start''"] t
  have "get_component_api compare_units unfiled_docs ''start'' =
     Inr ''# Start API Reference\<newline>Category: \<newline>Tags: guide\<newline>\<newline>Get started'' \<and>
   r_category (result_entry ''start'' ''/primevue//start'' example_unfiled) = ''Unknown''"
    by simp
  with h1 h2 show ?thesis by blast
qed

end
